theory Spec2Isabelle
  imports Complex_Main "HOL-Library.Sublist" "HOL-Library.Word"
begin

section \<open>Python values, errors and dictionaries\<close>

text \<open>
  The application is one Python script (\<^verbatim>\<open>app.py\<close>). Every exception the modelled
  lines can raise is a value of \<open>error\<close>; a function that can raise returns
  \<open>error + 'a\<close>, with \<open>Inl\<close> the exception.
\<close>

datatype error =
    FileNotFoundError
  | OSError
  | JSONDecodeError
  | TypeError
  | AttributeError
  | ValueError
  | IndexError
  | KeyError

text \<open>
  A Python \<^verbatim>\<open>dict\<close> is an association list in insertion order whose keys are
  pairwise distinct. \<^verbatim>\<open>d[k] = v\<close> overwrites the value in place when the key is
  present and appends the entry otherwise; \<^verbatim>\<open>d.get(k)\<close> and \<^verbatim>\<open>k in d\<close> look the key up.
\<close>

type_synonym ('k, 'v) dict = "('k \<times> 'v) list"

definition dict_get :: "('k, 'v) dict \<Rightarrow> 'k \<Rightarrow> 'v option" where
  "dict_get d k = map_of d k"

definition dict_contains :: "('k, 'v) dict \<Rightarrow> 'k \<Rightarrow> bool" where
  "dict_contains d k = (map_of d k \<noteq> None)"

primrec dict_setitem :: "'k \<Rightarrow> 'v \<Rightarrow> ('k, 'v) dict \<Rightarrow> ('k, 'v) dict" where
  "dict_setitem k v [] = [(k, v)]"
| "dict_setitem k v (p # ps) =
     (if fst p = k then (k, v) # ps else p # dict_setitem k v ps)"

definition dict_keys :: "('k, 'v) dict \<Rightarrow> 'k list" where
  "dict_keys d = map fst d"

text \<open>
  The values that \<^verbatim>\<open>json.load\<close> produces and \<^verbatim>\<open>json.dump\<close> accepts in this program:
  \<^verbatim>\<open>None\<close>, booleans, integers, strings, lists and dictionaries with string keys.
  A string is a list of characters, and a character stands for the code point of its
  number, \<^verbatim>\<open>chr(n)\<close> for \<open>n\<close> below 256; strings with other code points are outside the
  model. JSON numbers with a fraction or an exponent (Python floats) do not occur in the
  documents the program writes and are left out.
\<close>

datatype pyval =
    PNone
  | PBool bool
  | PInt int
  | PStr string
  | PList "pyval list"
  | PDict "(string \<times> pyval) list"

text \<open>
  A JSON document, as it stands in a file: an object is a sequence of members, in
  which a name may occur more than once.
\<close>

datatype json =
    JNull
  | JBool bool
  | JNum int
  | JString string
  | JArray "json list"
  | JObject "(string \<times> json) list"

text \<open>
  \<^verbatim>\<open>json.load\<close> builds a dictionary from the members of an object from left to right,
  so that the last member with a given name wins and keeps the position of the first.
\<close>

definition dict_of_pairs :: "('k \<times> 'v) list \<Rightarrow> ('k, 'v) dict" where
  "dict_of_pairs ps = foldl (\<lambda>d p. dict_setitem (fst p) (snd p) d) [] ps"

fun json_load :: "json \<Rightarrow> pyval" where
  "json_load JNull = PNone"
| "json_load (JBool b) = PBool b"
| "json_load (JNum n) = PInt n"
| "json_load (JString s) = PStr s"
| "json_load (JArray js) = PList (map json_load js)"
| "json_load (JObject ms) = PDict (dict_of_pairs (map (map_prod id json_load) ms))"

fun json_dump :: "pyval \<Rightarrow> json" where
  "json_dump PNone = JNull"
| "json_dump (PBool b) = JBool b"
| "json_dump (PInt n) = JNum n"
| "json_dump (PStr s) = JString s"
| "json_dump (PList vs) = JArray (map json_dump vs)"
| "json_dump (PDict kvs) = JObject (map (map_prod id json_dump) kvs)"

text \<open>Python's invariant on dictionaries: every dictionary inside a value has distinct keys.\<close>

fun py_wf :: "pyval \<Rightarrow> bool" where
  "py_wf (PList vs) = list_all py_wf vs"
| "py_wf (PDict kvs) = (distinct (map fst kvs) \<and> list_all (\<lambda>kv. py_wf (snd kv)) kvs)"
| "py_wf _ = True"

section \<open>Strings\<close>

text \<open>\<^verbatim>\<open>sub in s\<close> on strings: \<open>sub\<close> occurs in \<open>s\<close> as a contiguous run.\<close>

primrec str_contains :: "string \<Rightarrow> string \<Rightarrow> bool" where
  "str_contains sub [] = (sub = [])"
| "str_contains sub (c # cs) = (prefix sub (c # cs) \<or> str_contains sub cs)"

text \<open>\<^verbatim>\<open>str(n)\<close> of a non-negative integer: its decimal digits, most significant first.\<close>

definition digit_char :: "nat \<Rightarrow> char" where
  "digit_char d = char_of (48 + d)"

fun py_str :: "nat \<Rightarrow> string" where
  "py_str n = (if n < 10 then [digit_char n] else py_str (n div 10) @ [digit_char (n mod 10)])"

declare py_str.simps [simp del]

text \<open>
  \<^verbatim>\<open>int(s)\<close> of a string, base ten: surrounding whitespace is stripped, one sign is
  allowed, and the digits may be grouped by single underscores. \<open>None\<close> is the
  \<^verbatim>\<open>ValueError\<close> of a string that is no integer literal.

  The whitespace that \<^verbatim>\<open>int\<close> strips is the tab, the line feed, the vertical tab, the
  form feed, the carriage return and the space (9 to 13 and 32) and, of the code points
  from 128 on, those that Unicode counts as spaces: below 256 these are the next-line
  character (133) and the no-break space (160). The separators 28 to 31 are not
  stripped: \<^verbatim>\<open>int('\x1c5')\<close> raises. Below 256 the only decimal digits are \<^verbatim>\<open>0\<close> to \<^verbatim>\<open>9\<close>.

  The interpreter refuses a literal with more digits than its limit, 4300 unless it is
  configured otherwise (Python 3.11, and the later releases of 3.7 to 3.10); underscores
  do not count.
\<close>

definition is_space :: "char \<Rightarrow> bool" where
  "is_space c = ((of_char c :: nat) \<in> {9, 10, 11, 12, 13, 32, 133, 160})"

definition int_max_str_digits :: nat where
  "int_max_str_digits = 4300"

definition is_digit :: "char \<Rightarrow> bool" where
  "is_digit c = (48 \<le> (of_char c :: nat) \<and> (of_char c :: nat) \<le> 57)"

definition digit_val :: "char \<Rightarrow> nat" where
  "digit_val c = of_char c - 48"

definition strip :: "string \<Rightarrow> string" where
  "strip s = rev (dropWhile is_space (rev (dropWhile is_space s)))"

fun parse_digits :: "nat \<Rightarrow> string \<Rightarrow> nat option" where
  "parse_digits acc [] = Some acc"
| "parse_digits acc [c] = (if is_digit c then Some (10 * acc + digit_val c) else None)"
| "parse_digits acc (c # d # ds) =
     (if is_digit c then parse_digits (10 * acc + digit_val c) (d # ds)
      else if c = CHR ''_'' \<and> is_digit d then parse_digits (10 * acc + digit_val d) ds
      else None)"

definition parse_nat :: "string \<Rightarrow> nat option" where
  "parse_nat s =
     (case s of
        [] \<Rightarrow> None
      | c # cs \<Rightarrow>
          if \<not> is_digit c then None
          else if int_max_str_digits < length (filter is_digit s) then None
          else parse_digits (digit_val c) cs)"

definition py_int :: "string \<Rightarrow> int option" where
  "py_int s =
     (case strip s of
        [] \<Rightarrow> None
      | c # cs \<Rightarrow>
          if c = CHR ''-'' then map_option (\<lambda>n. - int n) (parse_nat cs)
          else if c = CHR ''+'' then map_option int (parse_nat cs)
          else map_option int (parse_nat (c # cs)))"

section \<open>Files\<close>

text \<open>
  A loaded Keras model, as far as the script looks at it: the class name of each of
  its layers, and the forward pass \<^verbatim>\<open>model.predict\<close>, which maps a batch of images
  to one vector of class scores per image. Tensor entries are \<^verbatim>\<open>float32\<close> in the
  program and real numbers here.
\<close>

type_synonym tensor = "real list list list list"

record keras_model =
  layers :: "string list"
  predict :: "tensor \<Rightarrow> real list list"

text \<open>
  What a path of the file system can hold: a serialised model, a text that is a JSON
  document, or anything else. The file system maps a path to the file it holds.
\<close>

datatype file_content =
    ModelFile keras_model
  | JsonFile json
  | OtherFile

type_synonym filesystem = "string \<Rightarrow> file_content option"

definition path_exists :: "filesystem \<Rightarrow> string \<Rightarrow> bool" where
  "path_exists fs path = (fs path \<noteq> None)"

text \<open>\<^verbatim>\<open>tf.keras.models.load_model(path, compile=False)\<close>.\<close>

definition load_model :: "filesystem \<Rightarrow> string \<Rightarrow> error + keras_model" where
  "load_model fs path =
     (case fs path of
        Some (ModelFile m) \<Rightarrow> Inr m
      | _ \<Rightarrow> Inl OSError)"

text \<open>\<^verbatim>\<open>with open(path, "r") as f: json.load(f)\<close>.\<close>

definition read_json :: "filesystem \<Rightarrow> string \<Rightarrow> error + pyval" where
  "read_json fs path =
     (case fs path of
        None \<Rightarrow> Inl FileNotFoundError
      | Some (JsonFile j) \<Rightarrow> Inr (json_load j)
      | Some _ \<Rightarrow> Inl JSONDecodeError)"

text \<open>\<^verbatim>\<open>with open(path, "w") as f: json.dump(data, f, indent=2)\<close>: the file is replaced.\<close>

definition write_json :: "filesystem \<Rightarrow> string \<Rightarrow> pyval \<Rightarrow> filesystem" where
  "write_json fs path data = fs(path := Some (JsonFile (json_dump data)))"

section \<open>Configuration\<close>

definition DEFAULT_MODEL_PATH :: string where
  "DEFAULT_MODEL_PATH = ''saved_models/efficientnetv2_b0.h5''"

definition LABELS_PATH :: string where
  "LABELS_PATH = ''saved_models/class_indices.json''"

definition IMG_SIZE :: "nat \<times> nat" where
  "IMG_SIZE = (224, 224)"

definition DATA_FILE :: string where
  "DATA_FILE = ''scan_data.json''"

section \<open>The scan store\<close>

definition load_scan_data :: "filesystem \<Rightarrow> error + pyval" where
  "load_scan_data fs =
     (if path_exists fs DATA_FILE then read_json fs DATA_FILE else Inr (PDict []))"

definition save_scan_data :: "pyval \<Rightarrow> filesystem \<Rightarrow> filesystem" where
  "save_scan_data data fs = write_json fs DATA_FILE data"

text \<open>
  The operations of the confirm handler on \<^verbatim>\<open>st.session_state.scan_data\<close>, which holds
  whatever \<open>load_scan_data\<close> returned. \<^verbatim>\<open>label not in scan_data\<close>, \<^verbatim>\<open>scan_data[label] = []\<close>,
  \<^verbatim>\<open>scan_data[label]\<close> and \<^verbatim>\<open>.append(timestamp)\<close> are defined on dictionaries and lists
  and raise on the other values.
\<close>

fun py_contains :: "string \<Rightarrow> pyval \<Rightarrow> error + bool" where
  "py_contains k (PDict kvs) = Inr (dict_contains kvs k)"
| "py_contains k (PList vs) = Inr (PStr k \<in> set vs)"
| "py_contains k (PStr s) = Inr (str_contains k s)"
| "py_contains k _ = Inl TypeError"

fun py_setitem :: "string \<Rightarrow> pyval \<Rightarrow> pyval \<Rightarrow> error + pyval" where
  "py_setitem k v (PDict kvs) = Inr (PDict (dict_setitem k v kvs))"
| "py_setitem k v _ = Inl TypeError"

fun py_getitem :: "string \<Rightarrow> pyval \<Rightarrow> error + pyval" where
  "py_getitem k (PDict kvs) =
     (case dict_get kvs k of None \<Rightarrow> Inl KeyError | Some v \<Rightarrow> Inr v)"
| "py_getitem k _ = Inl TypeError"

fun py_append :: "pyval \<Rightarrow> pyval \<Rightarrow> error + pyval" where
  "py_append (PList vs) v = Inr (PList (vs @ [v]))"
| "py_append _ v = Inl AttributeError"

text \<open>
  Lines 156 to 159 of the confirm handler: create the label's list if the label is
  absent, then append the timestamp to the label's list. The list is mutated in place,
  so the dictionary holds the longer list under the same key afterwards.
\<close>

definition append_scan :: "string \<Rightarrow> string \<Rightarrow> pyval \<Rightarrow> error + pyval" where
  "append_scan label timestamp scan_data =
     (case py_contains label scan_data of
        Inl e \<Rightarrow> Inl e
      | Inr present \<Rightarrow>
          (case (if \<not> present then py_setitem label (PList []) scan_data else Inr scan_data) of
             Inl e \<Rightarrow> Inl e
           | Inr sd \<Rightarrow>
               (case py_getitem label sd of
                  Inl e \<Rightarrow> Inl e
                | Inr entry \<Rightarrow>
                    (case py_append entry (PStr timestamp) of
                       Inl e \<Rightarrow> Inl e
                     | Inr entry' \<Rightarrow> py_setitem label entry' sd))))"

text \<open>
  The confirm handler from line 154 on, for the label of the held prediction and the
  timestamp read from the clock: append, then save the whole store. The state is the
  session's \<open>scan_data\<close> and the file system.
\<close>

definition confirm_and_save ::
  "string \<Rightarrow> string \<Rightarrow> pyval \<times> filesystem \<Rightarrow> error + (pyval \<times> filesystem)" where
  "confirm_and_save label timestamp st =
     (case append_scan label timestamp (fst st) of
        Inl e \<Rightarrow> Inl e
      | Inr sd \<Rightarrow> Inr (sd, save_scan_data sd (snd st)))"

text \<open>The clear handler: the session's store becomes the empty dictionary and is saved.\<close>

definition clear_all_data :: "pyval \<times> filesystem \<Rightarrow> pyval \<times> filesystem" where
  "clear_all_data st = (PDict [], save_scan_data (PDict []) (snd st))"

text \<open>
  The two store mutations as actions, and runs of them. A session starts from a store
  that \<open>load_scan_data\<close> returned; each action passes the session's store and the files on.
\<close>

datatype action = Confirm string string | Clear

fun perform :: "action \<Rightarrow> pyval \<times> filesystem \<Rightarrow> error + (pyval \<times> filesystem)" where
  "perform (Confirm label timestamp) st = confirm_and_save label timestamp st"
| "perform Clear st = Inr (clear_all_data st)"

fun run :: "action list \<Rightarrow> pyval \<times> filesystem \<Rightarrow> error + (pyval \<times> filesystem)" where
  "run [] st = Inr st"
| "run (a # as) st = (case perform a st of Inl e \<Rightarrow> Inl e | Inr st' \<Rightarrow> run as st')"

text \<open>
  The data model of the store: a dictionary (distinct keys) from labels to lists of
  timestamp strings. \<open>entries sd k\<close> is the sequence stored for \<open>k\<close>, empty when \<open>k\<close>
  is absent. The store invariant adds that a key that is present has a non-empty
  sequence.
\<close>

fun is_str :: "pyval \<Rightarrow> bool" where
  "is_str (PStr s) = True"
| "is_str _ = False"

fun is_timestamps :: "pyval \<Rightarrow> bool" where
  "is_timestamps (PList vs) = list_all is_str vs"
| "is_timestamps _ = False"

fun is_store :: "pyval \<Rightarrow> bool" where
  "is_store (PDict kvs) =
     (distinct (map fst kvs) \<and> list_all (\<lambda>kv. is_timestamps (snd kv)) kvs)"
| "is_store _ = False"

fun entries :: "pyval \<Rightarrow> string \<Rightarrow> pyval list" where
  "entries (PDict kvs) k = (case dict_get kvs k of Some (PList vs) \<Rightarrow> vs | _ \<Rightarrow> [])"
| "entries _ k = []"

fun store_invariant :: "pyval \<Rightarrow> bool" where
  "store_invariant (PDict kvs) =
     (is_store (PDict kvs) \<and> list_all (\<lambda>k. entries (PDict kvs) k \<noteq> []) (dict_keys kvs))"
| "store_invariant _ = False"

section \<open>Category and tallies\<close>

text \<open>
  The result view (lines 142 to 151) shows the held prediction with its category:
  \<^verbatim>\<open>is_healthy = "Healthy" in label\<close>. The label is whatever the label mapping held.
\<close>

definition is_healthy :: "pyval \<Rightarrow> error + bool" where
  "is_healthy label = py_contains ''Healthy'' label"

definition category :: "pyval \<Rightarrow> error + string" where
  "category label =
     (case is_healthy label of
        Inl e \<Rightarrow> Inl e
      | Inr h \<Rightarrow> Inr (if h then ''Segar (Fresh)'' else ''Tidak Segar (Not Fresh)''))"

definition result_view :: "pyval \<times> real \<Rightarrow> error + (pyval \<times> real \<times> string)" where
  "result_view prediction =
     (case category (fst prediction) of
        Inl e \<Rightarrow> Inl e
      | Inr c \<Rightarrow> Inr (fst prediction, snd prediction, c))"

text \<open>
  The tallies of both data views:
  \<^verbatim>\<open>{k: len(v) for k, v in scan_data.items() if "Healthy" in k}\<close> under the heading
  "Segar (Fresh)", and the same with \<^verbatim>\<open>"Rotten"\<close> under "Tidak Segar (Not Fresh)".
\<close>

fun py_len :: "pyval \<Rightarrow> error + nat" where
  "py_len (PList vs) = Inr (length vs)"
| "py_len (PStr s) = Inr (length s)"
| "py_len (PDict kvs) = Inr (length kvs)"
| "py_len _ = Inl TypeError"

fun count_items :: "string \<Rightarrow> (string, pyval) dict \<Rightarrow> error + (string, nat) dict" where
  "count_items marker [] = Inr []"
| "count_items marker (kv # kvs) =
     (if str_contains marker (fst kv) then
        (case py_len (snd kv) of
           Inl e \<Rightarrow> Inl e
         | Inr n \<Rightarrow>
             (case count_items marker kvs of
                Inl e \<Rightarrow> Inl e
              | Inr rest \<Rightarrow> Inr ((fst kv, n) # rest)))
      else count_items marker kvs)"

definition healthy_items :: "pyval \<Rightarrow> error + (string, nat) dict" where
  "healthy_items scan_data =
     (case scan_data of PDict kvs \<Rightarrow> count_items ''Healthy'' kvs | _ \<Rightarrow> Inl AttributeError)"

definition rotten_items :: "pyval \<Rightarrow> error + (string, nat) dict" where
  "rotten_items scan_data =
     (case scan_data of PDict kvs \<Rightarrow> count_items ''Rotten'' kvs | _ \<Rightarrow> Inl AttributeError)"

section \<open>Model loader\<close>

text \<open>
  \<^verbatim>\<open>{int(k): v for k, v in inv_map.items()}\<close>: the entries are visited in order, each
  key is coerced, and a later entry overwrites an earlier one with the same integer.
\<close>

fun coerce_keys :: "(int, pyval) dict \<Rightarrow> (string, pyval) dict \<Rightarrow> error + (int, pyval) dict" where
  "coerce_keys acc [] = Inr acc"
| "coerce_keys acc (kv # kvs) =
     (case py_int (fst kv) of
        None \<Rightarrow> Inl ValueError
      | Some i \<Rightarrow> coerce_keys (dict_setitem i (snd kv) acc) kvs)"

definition int_keys :: "pyval \<Rightarrow> error + (int, pyval) dict" where
  "int_keys inv_map =
     (case inv_map of PDict kvs \<Rightarrow> coerce_keys [] kvs | _ \<Rightarrow> Inl AttributeError)"

definition has_rescaling :: "keras_model \<Rightarrow> bool" where
  "has_rescaling model =
     list_ex (\<lambda>name. str_contains ''Rescaling'' name \<or> str_contains ''Preprocessing'' name)
       (layers model)"

text \<open>
  The loader. \<^verbatim>\<open>st.cache_resource\<close> keeps the first result for later calls; the model
  is the function computing that result from the files.
\<close>

definition load_model_and_labels ::
  "filesystem \<Rightarrow> string \<Rightarrow> string \<Rightarrow> error + (keras_model \<times> (int, pyval) dict \<times> bool)" where
  "load_model_and_labels fs model_path labels_path =
     (if \<not> path_exists fs model_path then Inl FileNotFoundError
      else
        (case load_model fs model_path of
           Inl e \<Rightarrow> Inl e
         | Inr model \<Rightarrow>
             if \<not> path_exists fs labels_path then Inl FileNotFoundError
             else
               (case read_json fs labels_path of
                  Inl e \<Rightarrow> Inl e
                | Inr inv_map \<Rightarrow>
                    (case int_keys inv_map of
                       Inl e \<Rightarrow> Inl e
                     | Inr inv_map' \<Rightarrow> Inr (model, inv_map', has_rescaling model)))))"

section \<open>Preprocessor\<close>

text \<open>
  An image has a size and a pixel at every column \<open>x\<close> and row \<open>y\<close> inside it; the
  pixel type \<open>'px\<close> depends on the image's mode. An RGB pixel is three bytes.
  The two library steps whose code is not part of the script are parameters: the
  conversion of one pixel of the image's mode to RGB (\<^verbatim>\<open>convert("RGB")\<close>), and the
  resampling filter of \<^verbatim>\<open>resize\<close>, which gives the pixel of the resized image at a
  position from the source image and the target size.
\<close>

type_synonym rgb = "8 word \<times> 8 word \<times> 8 word"

record 'px image =
  width :: nat
  height :: nat
  getpixel :: "nat \<Rightarrow> nat \<Rightarrow> 'px"

type_synonym resampler = "rgb image \<Rightarrow> nat \<times> nat \<Rightarrow> nat \<Rightarrow> nat \<Rightarrow> rgb"

definition convert_RGB :: "('px \<Rightarrow> rgb) \<Rightarrow> 'px image \<Rightarrow> rgb image" where
  "convert_RGB to_rgb im =
     \<lparr>width = width im, height = height im, getpixel = (\<lambda>x y. to_rgb (getpixel im x y))\<rparr>"

text \<open>
  \<^verbatim>\<open>resize(target)\<close> with \<open>target = (width, height)\<close>: an image that has the size already is
  returned as it is, an empty target size is refused, and every other image is resampled.
\<close>

definition resize :: "resampler \<Rightarrow> rgb image \<Rightarrow> nat \<times> nat \<Rightarrow> error + rgb image" where
  "resize resample im target =
     (if (width im, height im) = target then Inr im
      else if fst target < 1 \<or> snd target < 1 then Inl ValueError
      else Inr \<lparr>width = fst target, height = snd target, getpixel = resample im target\<rparr>)"

text \<open>\<^verbatim>\<open>np.array(image)\<close>: rows, then columns, then the three channels.\<close>

definition channels :: "rgb \<Rightarrow> 8 word list" where
  "channels p = (case p of (r, g, b) \<Rightarrow> [r, g, b])"

definition np_array :: "rgb image \<Rightarrow> 8 word list list list" where
  "np_array im =
     map (\<lambda>y. map (\<lambda>x. channels (getpixel im x y)) [0..<width im]) [0..<height im]"

definition astype_float32 :: "8 word list list list \<Rightarrow> real list list list" where
  "astype_float32 arr = map (map (map (\<lambda>b. real (unat b)))) arr"

definition divide_by :: "real \<Rightarrow> real list list list \<Rightarrow> real list list list" where
  "divide_by d arr = map (map (map (\<lambda>v. v / d))) arr"

definition expand_dims :: "real list list list \<Rightarrow> tensor" where
  "expand_dims arr = [arr]"

definition preprocess_image ::
  "('px \<Rightarrow> rgb) \<Rightarrow> resampler \<Rightarrow> 'px image \<Rightarrow> nat \<times> nat \<Rightarrow> bool \<Rightarrow> error + tensor" where
  "preprocess_image to_rgb resample img target do_rescale =
     (case resize resample (convert_RGB to_rgb img) target of
        Inl e \<Rightarrow> Inl e
      | Inr img' \<Rightarrow>
          (let arr = astype_float32 (np_array img');
               arr' = (if do_rescale then divide_by 255 arr else arr)
           in Inr (expand_dims arr')))"

text \<open>The shape of a tensor: \<open>(n, h, w, c)\<close> for \<open>n\<close> planes of \<open>h\<close> rows of \<open>w\<close> pixels of \<open>c\<close> values.\<close>

definition has_shape :: "tensor \<Rightarrow> nat \<times> nat \<times> nat \<times> nat \<Rightarrow> bool" where
  "has_shape t s =
     (case s of (n, h, w, c) \<Rightarrow>
        length t = n \<and>
        list_all (\<lambda>plane. length plane = h \<and>
          list_all (\<lambda>row. length row = w \<and> list_all (\<lambda>px. length px = c) row) plane) t)"

section \<open>Inference step\<close>

text \<open>
  \<^verbatim>\<open>np.argmax\<close> of a vector: the first index that holds the maximum; an empty vector is
  refused. The loop keeps the best index and value seen so far.
\<close>

fun argmax_from :: "nat \<Rightarrow> real \<Rightarrow> nat \<Rightarrow> real list \<Rightarrow> nat" where
  "argmax_from best_i best_v i [] = best_i"
| "argmax_from best_i best_v i (v # vs) =
     (if best_v < v then argmax_from i v (Suc i) vs
      else argmax_from best_i best_v (Suc i) vs)"

definition np_argmax :: "real list \<Rightarrow> error + nat" where
  "np_argmax probs =
     (case probs of [] \<Rightarrow> Inl ValueError | v # vs \<Rightarrow> Inr (argmax_from 0 v 1 vs))"

text \<open>
  Lines 121 to 126 of the scan handler: the forward pass, the first row of the result,
  the top index, its label (\<^verbatim>\<open>inv_map.get(int(top_idx), str(top_idx))\<close>) and its value.
\<close>

definition infer :: "keras_model \<Rightarrow> (int, pyval) dict \<Rightarrow> tensor \<Rightarrow> error + (pyval \<times> real)" where
  "infer model inv_map x =
     (case predict model x of
        [] \<Rightarrow> Inl IndexError
      | probs # _ \<Rightarrow>
          (case np_argmax probs of
             Inl e \<Rightarrow> Inl e
           | Inr top_idx \<Rightarrow>
               (let label = (case dict_get inv_map (int top_idx) of
                               Some l \<Rightarrow> l
                             | None \<Rightarrow> PStr (py_str top_idx))
                in if top_idx < length probs then Inr (label, probs ! top_idx)
                   else Inl IndexError)))"

text \<open>The scan handler, lines 117 to 126; an error is shown to the user by the caller.\<close>

definition scan_image ::
  "('px \<Rightarrow> rgb) \<Rightarrow> resampler \<Rightarrow> filesystem \<Rightarrow> 'px image \<Rightarrow> error + (pyval \<times> real)" where
  "scan_image to_rgb resample fs img =
     (case load_model_and_labels fs DEFAULT_MODEL_PATH LABELS_PATH of
        Inl e \<Rightarrow> Inl e
      | Inr (model, inv_map, rescaling) \<Rightarrow>
          (case preprocess_image to_rgb resample img IMG_SIZE (\<not> rescaling) of
             Inl e \<Rightarrow> Inl e
           | Inr x \<Rightarrow> infer model inv_map x))"

section \<open>Example artefacts\<close>

text \<open>
  The artefacts of the end-to-end example: a model that answers every input with one
  fixed vector (\<open>[0.9, 0.1]\<close> in the example), the label file
  \<^verbatim>\<open>{"0": "Apple_Healthy", "1": "Apple_Rotten"}\<close>, a label file that has no entry for
  index 0, a file system holding the model and a label file at the configured paths,
  nearest-neighbour resampling, and an image of two pixels.
\<close>

definition constant_model :: "real list \<Rightarrow> keras_model" where
  "constant_model probs =
     \<lparr>layers = [''InputLayer'', ''Rescaling'', ''Conv2D'', ''Dense''],
      predict = (\<lambda>x. [probs])\<rparr>"

definition example_model :: keras_model where
  "example_model = constant_model [9 / 10, 1 / 10]"

definition example_labels :: json where
  "example_labels = JObject [(''0'', JString ''Apple_Healthy''), (''1'', JString ''Apple_Rotten'')]"

definition short_labels :: json where
  "short_labels = JObject [(''1'', JString ''Apple_Rotten'')]"

definition example_files :: "json \<Rightarrow> filesystem" where
  "example_files labels =
     [DEFAULT_MODEL_PATH \<mapsto> ModelFile example_model, LABELS_PATH \<mapsto> JsonFile labels]"

definition nearest :: resampler where
  "nearest im target x y =
     getpixel im (x * width im div fst target) (y * height im div snd target)"

definition example_image :: "rgb image" where
  "example_image =
     \<lparr>width = 2, height = 1,
      getpixel = (\<lambda>x y. if x = 0 then (255, 0, 51) else (0, 102, 255))\<rparr>"

section \<open>Dictionaries and the JSON round trip\<close>

text \<open>
  Assignment to a key behaves as an update of the mapping the dictionary stands for and
  keeps its keys distinct. On a value whose dictionaries have distinct keys, parsing
  what was dumped gives the value back, so loading after saving returns what was saved.
\<close>

lemma map_of_dict_setitem: "map_of (dict_setitem k v d) = (map_of d)(k \<mapsto> v)"
  by (induction d) auto

lemma keys_dict_setitem: "fst ` set (dict_setitem k v d) = insert k (fst ` set d)"
  by (induction d) auto

lemma distinct_dict_setitem:
  "distinct (map fst d) \<Longrightarrow> distinct (map fst (dict_setitem k v d))"
  by (induction d) (auto simp: keys_dict_setitem)

lemma dict_setitem_fresh: "k \<notin> fst ` set d \<Longrightarrow> dict_setitem k v d = d @ [(k, v)]"
  by (induction d) auto

lemma dict_setitem_twice: "dict_setitem k v (dict_setitem k w d) = dict_setitem k v d"
  by (induction d) auto

lemma set_dict_setitem:
  "distinct (map fst d) \<Longrightarrow> set (dict_setitem k v d) = insert (k, v) {p \<in> set d. fst p \<noteq> k}"
  by (induction d) (auto simp: rev_image_eqI)

lemma foldl_setitem_distinct:
  "distinct (map fst (acc @ ps)) \<Longrightarrow>
   foldl (\<lambda>d p. dict_setitem (fst p) (snd p) d) acc ps = acc @ ps"
proof (induction ps arbitrary: acc)
  case Nil
  then show ?case by simp
next
  case (Cons p ps)
  from Cons.prems have "fst p \<notin> fst ` set acc" by auto
  then have "dict_setitem (fst p) (snd p) acc = acc @ [p]"
    by (simp add: dict_setitem_fresh)
  with Cons show ?case by simp
qed

lemma dict_of_pairs_distinct: "distinct (map fst ps) \<Longrightarrow> dict_of_pairs ps = ps"
  using foldl_setitem_distinct [of "[]" ps] by (simp add: dict_of_pairs_def)

lemma json_load_dump: "py_wf v \<Longrightarrow> json_load (json_dump v) = v"
proof (induction v)
  case (PList vs)
  then show ?case by (simp add: list_all_iff map_idI)
next
  case (PDict kvs)
  have "map (map_prod id json_load \<circ> map_prod id json_dump) kvs = kvs"
  proof (rule map_idI)
    fix x assume x: "x \<in> set kvs"
    obtain a b where ab: "x = (a, b)" by (cases x)
    have "py_wf b" using PDict.prems x ab by (auto simp: list_all_iff)
    then have "json_load (json_dump b) = b" using PDict.IH x ab by auto
    then show "(map_prod id json_load \<circ> map_prod id json_dump) x = x" by (simp add: ab)
  qed
  then have "map (map_prod id json_load) (map (map_prod id json_dump) kvs) = kvs"
    by simp
  moreover have "distinct (map fst kvs)" using PDict.prems by simp
  ultimately show ?case by (simp add: dict_of_pairs_distinct comp_def)
qed simp_all

lemma is_str_wf: "is_str v \<Longrightarrow> py_wf v"
  by (cases v) auto

lemma is_timestamps_wf: "is_timestamps v \<Longrightarrow> py_wf v"
  by (cases v) (auto simp: list_all_iff is_str_wf)

lemma is_store_wf: "is_store sd \<Longrightarrow> py_wf sd"
  by (cases sd) (auto simp: list_all_iff is_timestamps_wf)

lemma load_after_save: "py_wf data \<Longrightarrow> load_scan_data (save_scan_data data fs) = Inr data"
  by (simp add: save_scan_data_def write_json_def load_scan_data_def path_exists_def
      read_json_def json_load_dump)


lemma is_store_entry:
  assumes "is_store (PDict kvs)" and "map_of kvs k = Some v"
  shows "\<exists>vs. v = PList vs \<and> list_all is_str vs"
proof -
  have "(k, v) \<in> set kvs" using assms(2) by (rule map_of_SomeD)
  then have "is_timestamps v" using assms(1) by (auto simp: list_all_iff)
  then show ?thesis by (cases v) auto
qed

lemma append_scan_eq:
  assumes "is_store (PDict kvs)"
  shows "append_scan label t (PDict kvs) =
         Inr (PDict (dict_setitem label (PList (entries (PDict kvs) label @ [PStr t])) kvs))"
proof (cases "map_of kvs label")
  case None
  then show ?thesis
    by (simp add: append_scan_def dict_contains_def dict_get_def map_of_dict_setitem
        dict_setitem_twice)
next
  case (Some v)
  then obtain vs where "v = PList vs" using is_store_entry [OF assms] by blast
  with Some show ?thesis
    by (simp add: append_scan_def dict_contains_def dict_get_def)
qed

lemma is_store_setitem:
  assumes "is_store (PDict kvs)" and "is_timestamps v"
  shows "is_store (PDict (dict_setitem k v kvs))"
proof -
  have d: "distinct (map fst kvs)" using assms(1) by simp
  show ?thesis
    using assms by (auto simp: distinct_dict_setitem set_dict_setitem [OF d] list_all_iff)
qed

lemma is_timestamps_entries: "is_store sd \<Longrightarrow> is_timestamps (PList (entries sd k))"
proof (cases sd)
  case (PDict kvs)
  assume "is_store sd"
  then show ?thesis using PDict is_store_entry [of kvs k]
    by (cases "map_of kvs k") (auto simp: dict_get_def)
qed simp_all

lemma entries_setitem:
  "entries (PDict (dict_setitem label (PList vs) kvs)) k =
     (if k = label then vs else entries (PDict kvs) k)"
  by (simp add: dict_get_def map_of_dict_setitem)

lemma append_scan_store:
  assumes "is_store sd"
  shows "\<exists>sd'. append_scan label t sd = Inr sd' \<and> is_store sd'
           \<and> entries sd' label = entries sd label @ [PStr t]
           \<and> (\<forall>k. k \<noteq> label \<longrightarrow> py_getitem k sd' = py_getitem k sd)
           \<and> (\<forall>k. k \<noteq> label \<longrightarrow> entries sd' k = entries sd k)
           \<and> (\<forall>k. py_contains k sd = Inr True \<longrightarrow> py_contains k sd' = Inr True)
           \<and> py_contains label sd' = Inr True
           \<and> (\<forall>k. py_contains k sd' = Inr True \<longrightarrow> k = label \<or> py_contains k sd = Inr True)"
proof (cases sd)
  case (PDict kvs)
  let ?v = "PList (entries sd label @ [PStr t])"
  have ts: "is_timestamps ?v"
    using is_timestamps_entries [OF assms, of label] by simp
  have "is_store (PDict (dict_setitem label ?v kvs))"
    using assms PDict ts by (intro is_store_setitem) simp_all
  moreover have "append_scan label t sd = Inr (PDict (dict_setitem label ?v kvs))"
    using assms PDict append_scan_eq [of kvs label t] by simp
  ultimately show ?thesis using PDict
    by (simp add: entries_setitem dict_get_def dict_contains_def map_of_dict_setitem
        del: entries.simps is_store.simps)
qed (use assms in simp_all)


lemma store_invariant_iff:
  "store_invariant sd =
     (is_store sd \<and> (\<forall>k. py_contains k sd = Inr True \<longrightarrow> entries sd k \<noteq> []))"
proof (cases sd)
  case (PDict kvs)
  have "dict_contains kvs k = (k \<in> set (dict_keys kvs))" for k
    by (simp add: dict_contains_def dict_keys_def map_of_eq_None_iff)
  then show ?thesis using PDict
    by (auto simp: list_all_iff simp del: entries.simps is_store.simps)
qed simp_all

lemma confirm_and_save_store:
  assumes "is_store sd"
  shows "\<exists>sd' fs'. confirm_and_save label t (sd, fs) = Inr (sd', fs')
           \<and> load_scan_data fs' = Inr sd' \<and> append_scan label t sd = Inr sd'"
proof -
  obtain sd' where a: "append_scan label t sd = Inr sd'" and s: "is_store sd'"
    using append_scan_store [OF assms, of label t] by blast
  have "load_scan_data (save_scan_data sd' fs) = Inr sd'"
    using s by (intro load_after_save is_store_wf)
  with a show ?thesis by (simp add: confirm_and_save_def)
qed

lemma perform_invariant:
  assumes "store_invariant sd"
  shows "\<exists>sd' fs'. perform a (sd, fs) = Inr (sd', fs') \<and> store_invariant sd'
           \<and> load_scan_data fs' = Inr sd'
           \<and> (a \<noteq> Clear \<longrightarrow>
                (\<forall>k. py_contains k sd = Inr True \<longrightarrow> py_contains k sd' = Inr True)
              \<and> (\<forall>k. prefix (entries sd k) (entries sd' k)))"
proof (cases a)
  case (Confirm label t)
  have st: "is_store sd" and ne: "\<And>k. py_contains k sd = Inr True \<Longrightarrow> entries sd k \<noteq> []"
    using assms by (simp_all add: store_invariant_iff)
  obtain sd' where a: "append_scan label t sd = Inr sd'" and s: "is_store sd'"
    and e: "entries sd' label = entries sd label @ [PStr t]"
    and o: "\<And>k. k \<noteq> label \<Longrightarrow> entries sd' k = entries sd k"
    and c: "\<And>k. py_contains k sd = Inr True \<Longrightarrow> py_contains k sd' = Inr True"
    and c': "\<And>k. py_contains k sd' = Inr True \<Longrightarrow> k = label \<or> py_contains k sd = Inr True"
    using append_scan_store [OF st, of label t] by blast
  have "entries sd' k \<noteq> []" if "py_contains k sd' = Inr True" for k
  proof (cases "k = label")
    case True
    then show ?thesis using e by simp
  next
    case False
    then show ?thesis using c' [OF that] o ne by simp
  qed
  then have inv: "store_invariant sd'" using s by (simp add: store_invariant_iff)
  have "prefix (entries sd k) (entries sd' k)" for k
    using e o by (cases "k = label") simp_all
  moreover have "load_scan_data (save_scan_data sd' fs) = Inr sd'"
    using s by (intro load_after_save is_store_wf)
  ultimately show ?thesis using Confirm a inv c by (simp add: confirm_and_save_def)
next
  case Clear
  have "load_scan_data (save_scan_data (PDict []) fs) = Inr (PDict [])"
    by (intro load_after_save) simp
  then show ?thesis using Clear by (simp add: clear_all_data_def dict_keys_def)
qed

lemma run_invariant:
  "store_invariant (fst st) \<Longrightarrow> \<exists>st'. run as st = Inr st' \<and> store_invariant (fst st')"
proof (induction as arbitrary: st)
  case Nil
  then show ?case by simp
next
  case (Cons a as)
  obtain sd' fs' where p: "perform a st = Inr (sd', fs')" and i: "store_invariant sd'"
    using perform_invariant [OF Cons.prems, of a "snd st"] by auto
  from Cons.IH [of "(sd', fs')"] i p show ?case by simp
qed

section \<open>Properties of the scan store\<close>

text \<open>
  C2: for every store (a dictionary from labels to lists of timestamp strings), every
  label, every timestamp and every state of the files, the confirm action succeeds, and
  loading afterwards returns the session's new store; in it the sequence of the label
  ends with the timestamp and is one longer than before, being the old sequence with
  the timestamp appended, and every other label has what it had.
\<close>

theorem append_then_load:
  assumes "is_store sd"
  shows "\<exists>sd' fs'. confirm_and_save label t (sd, fs) = Inr (sd', fs')
           \<and> load_scan_data fs' = Inr sd'
           \<and> last (entries sd' label) = PStr t
           \<and> length (entries sd' label) = length (entries sd label) + 1
           \<and> entries sd' label = entries sd label @ [PStr t]
           \<and> (\<forall>k. k \<noteq> label \<longrightarrow> py_getitem k sd' = py_getitem k sd)"
proof -
  obtain sd' fs' where c: "confirm_and_save label t (sd, fs) = Inr (sd', fs')"
    and l: "load_scan_data fs' = Inr sd'" and a: "append_scan label t sd = Inr sd'"
    using confirm_and_save_store [OF assms, of label t fs] by blast
  have e: "entries sd' label = entries sd label @ [PStr t]"
    and o: "\<forall>k. k \<noteq> label \<longrightarrow> py_getitem k sd' = py_getitem k sd"
    using append_scan_store [OF assms, of label t] a by auto
  show ?thesis using c l e o by simp
qed

theorem append_then_load_witness:
  "is_store (PDict [(''Apple_Healthy'', PList [PStr ''2024-05-01T10:00:00''])])
   \<and> (\<exists>sd' fs'. confirm_and_save ''Apple_Healthy'' ''2024-05-02T09:30:00''
          (PDict [(''Apple_Healthy'', PList [PStr ''2024-05-01T10:00:00''])], Map.empty)
            = Inr (sd', fs')
        \<and> load_scan_data fs' = Inr sd'
        \<and> last (entries sd' ''Apple_Healthy'') = PStr ''2024-05-02T09:30:00''
        \<and> length (entries sd' ''Apple_Healthy'') = 2)"
proof (intro conjI)
  show h: "is_store (PDict [(''Apple_Healthy'', PList [PStr ''2024-05-01T10:00:00''])])"
    by simp
  show "\<exists>sd' fs'. confirm_and_save ''Apple_Healthy'' ''2024-05-02T09:30:00''
          (PDict [(''Apple_Healthy'', PList [PStr ''2024-05-01T10:00:00''])], Map.empty)
            = Inr (sd', fs')
        \<and> load_scan_data fs' = Inr sd'
        \<and> last (entries sd' ''Apple_Healthy'') = PStr ''2024-05-02T09:30:00''
        \<and> length (entries sd' ''Apple_Healthy'') = 2"
    using append_then_load [OF h, of "''Apple_Healthy''" "''2024-05-02T09:30:00''" Map.empty]
    by (auto simp: dict_get_def)
qed

text \<open>
  C5: whatever the session's store and the files were, clearing and then loading gives
  the empty mapping.
\<close>

theorem clear_then_load_empty:
  "load_scan_data (snd (clear_all_data (sd, fs))) = Inr (PDict [])"
  by (simp add: clear_all_data_def save_scan_data_def write_json_def load_scan_data_def
      path_exists_def read_json_def dict_of_pairs_def)



text \<open>
  C9: from a store in which every present key has a non-empty sequence, the confirm
  action and the clear action both succeed and lead to such a store again, in the
  session and in the file; and an action other than clear keeps every key, each with
  its old sequence as a prefix of the new one.
\<close>

theorem store_invariant_preserved:
  assumes "store_invariant sd"
  shows "\<exists>sd' fs'. perform a (sd, fs) = Inr (sd', fs') \<and> store_invariant sd'
           \<and> load_scan_data fs' = Inr sd'
           \<and> (a \<noteq> Clear \<longrightarrow>
                (\<forall>k. py_contains k sd = Inr True \<longrightarrow> py_contains k sd' = Inr True)
              \<and> (\<forall>k. prefix (entries sd k) (entries sd' k)))"
  using assms by (rule perform_invariant)

theorem store_invariant_preserved_witness:
  "store_invariant (PDict [(''Apple_Healthy'', PList [PStr ''2024-05-01T10:00:00''])])
   \<and> Confirm ''Apple_Rotten'' ''2024-05-02T09:30:00'' \<noteq> Clear
   \<and> (\<exists>sd' fs'. perform (Confirm ''Apple_Rotten'' ''2024-05-02T09:30:00'')
          (PDict [(''Apple_Healthy'', PList [PStr ''2024-05-01T10:00:00''])], Map.empty)
            = Inr (sd', fs')
        \<and> store_invariant sd'
        \<and> py_contains ''Apple_Healthy'' sd' = Inr True
        \<and> prefix [PStr ''2024-05-01T10:00:00''] (entries sd' ''Apple_Healthy''))"
proof (intro conjI)
  show h: "store_invariant (PDict [(''Apple_Healthy'', PList [PStr ''2024-05-01T10:00:00''])])"
    by (simp add: dict_keys_def dict_get_def)
  show "Confirm ''Apple_Rotten'' ''2024-05-02T09:30:00'' \<noteq> Clear"
    by simp
  have c: "py_contains ''Apple_Healthy''
             (PDict [(''Apple_Healthy'', PList [PStr ''2024-05-01T10:00:00''])]) = Inr True"
    by (simp add: dict_contains_def)
  have e: "entries (PDict [(''Apple_Healthy'', PList [PStr ''2024-05-01T10:00:00''])])
             ''Apple_Healthy'' = [PStr ''2024-05-01T10:00:00'']"
    by (simp add: dict_get_def)
  obtain sd' fs' where p: "perform (Confirm ''Apple_Rotten'' ''2024-05-02T09:30:00'')
          (PDict [(''Apple_Healthy'', PList [PStr ''2024-05-01T10:00:00''])], Map.empty)
            = Inr (sd', fs')"
    and i: "store_invariant sd'"
    and k: "\<forall>k. py_contains k (PDict [(''Apple_Healthy'', PList [PStr ''2024-05-01T10:00:00''])])
               = Inr True \<longrightarrow> py_contains k sd' = Inr True"
    and q: "\<forall>k. prefix (entries (PDict [(''Apple_Healthy'', PList [PStr ''2024-05-01T10:00:00''])]) k)
               (entries sd' k)"
    using store_invariant_preserved
      [OF h, of "Confirm ''Apple_Rotten'' ''2024-05-02T09:30:00''" Map.empty]
    by auto
  have "py_contains ''Apple_Healthy'' sd' = Inr True" using k c by blast
  moreover have "prefix [PStr ''2024-05-01T10:00:00''] (entries sd' ''Apple_Healthy'')"
    using q [rule_format, of "''Apple_Healthy''"] e by simp
  ultimately show "\<exists>sd' fs'. perform (Confirm ''Apple_Rotten'' ''2024-05-02T09:30:00'')
          (PDict [(''Apple_Healthy'', PList [PStr ''2024-05-01T10:00:00''])], Map.empty)
            = Inr (sd', fs')
        \<and> store_invariant sd'
        \<and> py_contains ''Apple_Healthy'' sd' = Inr True
        \<and> prefix [PStr ''2024-05-01T10:00:00''] (entries sd' ''Apple_Healthy'')"
    using p i by blast
qed

text \<open>
  C10: for every mapping from label strings to lists of timestamp strings and every
  state of the files, saving the mapping and then loading returns the mapping.
\<close>

theorem save_then_load:
  "is_store data \<Longrightarrow> load_scan_data (save_scan_data data fs) = Inr data"
  by (intro load_after_save is_store_wf)

theorem save_then_load_witness:
  "is_store (PDict [(''Apple_Healthy'', PList [PStr ''2024-05-01T10:00:00'']),
                    (''Apple_Rotten'', PList [])])
   \<and> load_scan_data
        (save_scan_data
           (PDict [(''Apple_Healthy'', PList [PStr ''2024-05-01T10:00:00'']),
                   (''Apple_Rotten'', PList [])]) Map.empty)
       = Inr (PDict [(''Apple_Healthy'', PList [PStr ''2024-05-01T10:00:00'']),
                     (''Apple_Rotten'', PList [])])"
proof (intro conjI)
  show h: "is_store (PDict [(''Apple_Healthy'', PList [PStr ''2024-05-01T10:00:00'']),
                    (''Apple_Rotten'', PList [])])"
    by simp
  show "load_scan_data
        (save_scan_data
           (PDict [(''Apple_Healthy'', PList [PStr ''2024-05-01T10:00:00'']),
                   (''Apple_Rotten'', PList [])]) Map.empty)
       = Inr (PDict [(''Apple_Healthy'', PList [PStr ''2024-05-01T10:00:00'']),
                     (''Apple_Rotten'', PList [])])"
    by (rule save_then_load [OF h])
qed

section \<open>Strings and integer literals\<close>

text \<open>
  \<open>str_contains\<close> is the contiguous-sublist relation of the list library, and
  \<^verbatim>\<open>int(str(n))\<close> is \<open>n\<close> for a numeral within the digit limit: a label file whose keys
  were written with \<^verbatim>\<open>str\<close> is read back with the indices it was written from. The
  separators 28 to 31 are not stripped, the no-break space is.
\<close>

lemma str_contains_sublist: "str_contains sub s = sublist sub s"
  by (induction s) (simp_all add: sublist_Cons_right)

lemma of_char_digit_char: "d < 10 \<Longrightarrow> (of_char (digit_char d) :: nat) = 48 + d"
  by (simp add: digit_char_def)

lemma digit_char_props:
  assumes "d < 10"
  shows "is_digit (digit_char d)" and "digit_val (digit_char d) = d"
    and "\<not> is_space (digit_char d)"
    and "digit_char d \<noteq> CHR ''-''" and "digit_char d \<noteq> CHR ''+''"
proof -
  have o: "(of_char (digit_char d) :: nat) = 48 + d" using assms by (rule of_char_digit_char)
  show "is_digit (digit_char d)" using assms by (simp add: is_digit_def o)
  show "digit_val (digit_char d) = d" by (simp add: digit_val_def o)
  show "\<not> is_space (digit_char d)" using assms by (simp add: is_space_def o)
  show "digit_char d \<noteq> CHR ''-''"
  proof
    assume "digit_char d = CHR ''-''"
    then have "(of_char (digit_char d) :: nat) = of_char CHR ''-''" by simp
    then show False by (simp add: o)
  qed
  show "digit_char d \<noteq> CHR ''+''"
  proof
    assume "digit_char d = CHR ''+''"
    then have "(of_char (digit_char d) :: nat) = of_char CHR ''+''" by simp
    then show False by (simp add: o)
  qed
qed

lemma digit_char_eq: "(of_char c :: nat) = 48 + d \<Longrightarrow> digit_char d = c"
  unfolding digit_char_def by (metis char_of_char)

lemma parse_digits_all_digits:
  "list_all is_digit ds \<Longrightarrow>
   parse_digits acc ds = Some (foldl (\<lambda>a c. 10 * a + digit_val c) acc ds)"
  by (induction acc ds rule: parse_digits.induct) simp_all

lemma py_str_digits:
  "list_all is_digit (py_str n) \<and> py_str n \<noteq> []
   \<and> foldl (\<lambda>a c. 10 * a + digit_val c) 0 (py_str n) = n"
proof (induction n rule: py_str.induct)
  case (1 n)
  show ?case
  proof (cases "n < 10")
    case True
    then show ?thesis by (subst (1 2 3) py_str.simps) (simp add: digit_char_props)
  next
    case False
    have m: "n mod 10 < 10" by simp
    from False "1.IH" show ?thesis
      by (subst (1 2 3) py_str.simps) (simp add: digit_char_props [OF m])
  qed
qed

lemma strip_id:
  assumes "s \<noteq> []" and "\<not> is_space (hd s)" and "\<not> is_space (last s)"
  shows "strip s = s"
proof -
  have a: "dropWhile is_space s = s" using assms(1,2) by (cases s) simp_all
  have "dropWhile is_space (rev s) = rev s"
    using assms(1,3) by (cases "rev s") (simp_all add: last_rev [symmetric] hd_rev)
  then show ?thesis by (simp add: strip_def a)
qed

lemma py_int_py_str:
  assumes "length (py_str n) \<le> int_max_str_digits"
  shows "py_int (py_str n) = Some (int n)"
proof -
  have d: "list_all is_digit (py_str n)" and ne: "py_str n \<noteq> []"
    and v: "foldl (\<lambda>a c. 10 * a + digit_val c) 0 (py_str n) = n"
    using py_str_digits [of n] by simp_all
  obtain c cs where s: "py_str n = c # cs" using ne by (cases "py_str n") auto
  have dc: "is_digit c" and dcs: "list_all is_digit cs" using d s by simp_all
  have nsp: "\<And>x. is_digit x \<Longrightarrow> \<not> is_space x"
    by (auto simp: is_digit_def is_space_def)
  have "is_digit (last (py_str n))" using d ne by (simp add: list_all_iff)
  then have st: "strip (py_str n) = c # cs"
    using strip_id [of "py_str n"] ne nsp dc s by auto
  have nm: "c \<noteq> CHR ''-''" and np: "c \<noteq> CHR ''+''"
    using dc by (auto simp: is_digit_def)
  have "length (filter is_digit (c # cs)) \<le> int_max_str_digits"
    using assms s by (metis length_filter_le order_trans)
  then have "parse_nat (c # cs) = Some n"
    using dc parse_digits_all_digits [OF dcs, of "digit_val c"] v s
    by (simp add: parse_nat_def)
  then show ?thesis by (simp add: py_int_def st nm np)
qed


lemma py_int_no_break_space: "py_int [CHR 0xA0, CHR ''5''] = Some 5"
  by (simp add: py_int_def strip_def is_space_def parse_nat_def is_digit_def digit_val_def
      int_max_str_digits_def)

lemma py_str_0: "py_str 0 = ''0''"
  by (subst py_str.simps) (simp add: digit_char_eq)

section \<open>Properties of the category and the tallies\<close>

text \<open>
  The category shown with a prediction follows the rule "contains \<^verbatim>\<open>Healthy\<close>, else not
  fresh", whatever the probability. On a store, each tally lists the keys that contain
  its marker, in the store's order, with the length of their sequences.
\<close>

lemma category_rule:
  "category (PStr s) =
     Inr (if sublist ''Healthy'' s then ''Segar (Fresh)'' else ''Tidak Segar (Not Fresh)'')"
  by (simp add: category_def is_healthy_def str_contains_sublist)

lemma result_view_rule:
  "result_view (PStr s, p) =
     Inr (PStr s, p,
          if sublist ''Healthy'' s then ''Segar (Fresh)'' else ''Tidak Segar (Not Fresh)'')"
  by (simp add: result_view_def category_rule)

lemma count_items_store:
  "list_all (\<lambda>kv. is_timestamps (snd kv)) kvs \<Longrightarrow>
   count_items marker kvs =
     Inr (map (\<lambda>kv. (fst kv, length (entries (PDict [kv]) (fst kv))))
            (filter (\<lambda>kv. sublist marker (fst kv)) kvs))"
proof (induction kvs)
  case Nil
  then show ?case by simp
next
  case (Cons kv kvs)
  obtain vs where "snd kv = PList vs" using Cons.prems by (cases "snd kv") auto
  then show ?case using Cons by (simp add: str_contains_sublist dict_get_def)
qed

text \<open>
  C1: the category rule puts every label without \<^verbatim>\<open>Healthy\<close> in its name under
  "not fresh", but the not-fresh tally lists the keys that contain \<^verbatim>\<open>Rotten\<close>. For the
  label \<^verbatim>\<open>7\<close> (what the inference step returns for an index without an entry in the
  label mapping), confirmed once, the category is "Tidak Segar (Not Fresh)" and both
  tallies are empty: the stored label is shown in neither group.
\<close>

theorem tally_misses_unmarked_label:
  "category (PStr ''7'') = Inr ''Tidak Segar (Not Fresh)''
   \<and> healthy_items (PDict [(''7'', PList [PStr ''2024-05-01T10:00:00''])]) = Inr []
   \<and> rotten_items (PDict [(''7'', PList [PStr ''2024-05-01T10:00:00''])]) = Inr []"
  by (simp add: category_def is_healthy_def healthy_items_def rotten_items_def)

section \<open>Properties of the model loader\<close>





lemma load_model_and_labels_flag:
  "load_model_and_labels fs mp lp = Inr (m, inv_map, r) \<Longrightarrow> r = has_rescaling m"
  by (auto simp: load_model_and_labels_def split: if_splits sum.splits)

lemmas fixture_defs =
  example_files_def example_labels_def example_model_def constant_model_def
  DEFAULT_MODEL_PATH_def LABELS_PATH_def

lemmas py_int_defs =
  py_int_def strip_def is_space_def parse_nat_def is_digit_def digit_val_def
  int_max_str_digits_def

lemma load_example_labels:
  "load_model_and_labels (example_files example_labels) DEFAULT_MODEL_PATH LABELS_PATH =
     Inr (example_model, [(0, PStr ''Apple_Healthy''), (1, PStr ''Apple_Rotten'')], True)"
  by (simp add: load_model_and_labels_def path_exists_def load_model_def read_json_def
      int_keys_def dict_of_pairs_def has_rescaling_def fixture_defs py_int_defs)

lemma load_short_labels:
  "load_model_and_labels (example_files short_labels) DEFAULT_MODEL_PATH LABELS_PATH =
     Inr (example_model, [(1, PStr ''Apple_Rotten'')], True)"
  by (simp add: load_model_and_labels_def path_exists_def load_model_def read_json_def
      int_keys_def dict_of_pairs_def has_rescaling_def fixture_defs short_labels_def
      py_int_defs)



section \<open>Properties of the preprocessor\<close>

text \<open>
  A positive target size is never refused, and the tensor is the array of the resized
  image with every byte converted (and divided by 255 when asked), in one plane.
\<close>

lemma resize_ok:
  assumes "0 < w" and "0 < h"
  shows "\<exists>im. resize rs src (w, h) = Inr im \<and> width im = w \<and> height im = h"
  using assms by (auto simp: resize_def)

lemma length_channels: "length (channels p) = 3"
  by (cases p) (simp add: channels_def)

lemma preprocess_image_eq:
  assumes "resize rs (convert_RGB cv img) target = Inr im"
  shows "preprocess_image cv rs img target do_rescale =
           Inr [map (map (map (\<lambda>b. if do_rescale then real (unat b) / 255 else real (unat b))))
                  (np_array im)]"
  using assms
  by (cases do_rescale)
    (simp_all add: preprocess_image_def astype_float32_def divide_by_def expand_dims_def
      Let_def comp_def)

lemma byte_range: "0 \<le> real (unat (b :: 8 word)) / 255 \<and> real (unat b) / 255 \<le> 1"
proof -
  have "unat b < 2 ^ LENGTH(8)" by (rule unsigned_less)
  then have "real (unat b) \<le> 255" by (simp del: of_nat_unat)
  then show ?thesis by (simp del: of_nat_unat)
qed

lemma preprocess_image_spec:
  assumes "0 < w" and "0 < h"
  shows "\<exists>im t. resize rs (convert_RGB cv img) (w, h) = Inr im
           \<and> width im = w \<and> height im = h
           \<and> preprocess_image cv rs img (w, h) do_rescale = Inr t
           \<and> has_shape t (1, h, w, 3)
           \<and> (\<forall>y<h. \<forall>x<w. t ! 0 ! y ! x =
                 map (\<lambda>b. if do_rescale then real (unat b) / 255 else real (unat b))
                   (channels (getpixel im x y)))
           \<and> (do_rescale \<longrightarrow> (\<forall>y<h. \<forall>x<w. \<forall>v\<in>set (t ! 0 ! y ! x). 0 \<le> v \<and> v \<le> 1))"
proof -
  obtain im where r: "resize rs (convert_RGB cv img) (w, h) = Inr im"
    and wd: "width im = w" and ht: "height im = h"
    using resize_ok [OF assms] by blast
  let ?g = "\<lambda>b::8 word. if do_rescale then real (unat b) / 255 else real (unat b)"
  let ?t = "[map (map (map ?g)) (np_array im)]"
  have p: "preprocess_image cv rs img (w, h) do_rescale = Inr ?t"
    using r by (rule preprocess_image_eq)
  have sh: "has_shape ?t (1, h, w, 3)"
    using wd ht
    by (auto simp: has_shape_def list_all_iff np_array_def length_channels)
  have px: "\<forall>y<h. \<forall>x<w. ?t ! 0 ! y ! x = map ?g (channels (getpixel im x y))"
    using wd ht by (simp add: np_array_def)
  have rg: "do_rescale \<longrightarrow> (\<forall>y<h. \<forall>x<w. \<forall>v\<in>set (?t ! 0 ! y ! x). 0 \<le> v \<and> v \<le> 1)"
  proof (intro impI allI ballI)
    fix y x v assume dr: do_rescale and y: "y < h" and x: "x < w"
      and v: "v \<in> set (?t ! 0 ! y ! x)"
    have "?t ! 0 ! y ! x = map ?g (channels (getpixel im x y))" using px y x by blast
    then have "v \<in> ?g ` set (channels (getpixel im x y))" using v by simp
    then obtain b where "v = ?g b" by blast
    then show "0 \<le> v \<and> v \<le> 1" using dr byte_range [of b] by simp
  qed
  show ?thesis using r wd ht p sh px rg by blast
qed

lemma preprocess_image_total:
  "\<exists>x. preprocess_image cv rs img IMG_SIZE d = Inr x"
proof -
  have "(0::nat) < 224" by simp
  then obtain im where "resize rs (convert_RGB cv img) (224, 224) = Inr im"
    using resize_ok [of 224 224 rs "convert_RGB cv img"] by blast
  then have "\<exists>x. preprocess_image cv rs img (224, 224) d = Inr x"
    using preprocess_image_eq [of rs cv img "(224, 224)" im d] by blast
  then show ?thesis by (simp only: IMG_SIZE_def)
qed

lemma scan_image_eq:
  assumes "load_model_and_labels fs DEFAULT_MODEL_PATH LABELS_PATH = Inr (model, inv_map, r)"
  shows "scan_image cv rs fs img =
           (case preprocess_image cv rs img IMG_SIZE (\<not> has_rescaling model) of
              Inl e \<Rightarrow> Inl e
            | Inr x \<Rightarrow> infer model inv_map x)"
  using assms load_model_and_labels_flag [OF assms] by (simp add: scan_image_def)

text \<open>
  C8: for every image, conversion, resampling filter and target size with positive
  width \<open>w\<close> and height \<open>h\<close>, the preprocessor returns a tensor of shape \<open>(1, h, w, 3)\<close>:
  one plane, whose entry at row \<open>y\<close> and column \<open>x\<close> holds the three channels of the
  pixel at \<open>(x, y)\<close> of the converted image resized to \<open>w\<close> by \<open>h\<close>, each divided by 255
  when \<open>do_rescale\<close> is set (and then within 0 and 1) and as it is otherwise. The scan
  handler calls it with the configured size and sets \<open>do_rescale\<close> exactly when the
  loaded model has no rescaling layer.
\<close>

theorem preprocess_image_shape:
  assumes "0 < w" and "0 < h"
  shows "(\<exists>im t. resize resample (convert_RGB to_rgb img) (w, h) = Inr im
           \<and> width im = w \<and> height im = h
           \<and> preprocess_image to_rgb resample img (w, h) do_rescale = Inr t
           \<and> has_shape t (1, h, w, 3)
           \<and> (\<forall>y<h. \<forall>x<w. t ! 0 ! y ! x =
                 map (\<lambda>b. if do_rescale then real (unat b) / 255 else real (unat b))
                   (channels (getpixel im x y)))
           \<and> (do_rescale \<longrightarrow> (\<forall>y<h. \<forall>x<w. \<forall>v\<in>set (t ! 0 ! y ! x). 0 \<le> v \<and> v \<le> 1)))
       \<and> (load_model_and_labels fs DEFAULT_MODEL_PATH LABELS_PATH = Inr (model, inv_map, r) \<longrightarrow>
            scan_image to_rgb resample fs img =
              (case preprocess_image to_rgb resample img IMG_SIZE (\<not> has_rescaling model) of
                 Inl e \<Rightarrow> Inl e
               | Inr x \<Rightarrow> infer model inv_map x))"
  using preprocess_image_spec [OF assms, of resample to_rgb img do_rescale]
    scan_image_eq [of fs model inv_map r to_rgb resample img]
  by blast

theorem preprocess_image_shape_witness:
  "(0::nat) < 3 \<and> (0::nat) < 2
   \<and> (\<exists>t. preprocess_image id nearest example_image (3, 2) True = Inr t
        \<and> has_shape t (1, 2, 3, 3)
        \<and> t ! 0 ! 1 ! 2 = [0, 2 / 5, 1])
   \<and> load_model_and_labels (example_files example_labels) DEFAULT_MODEL_PATH LABELS_PATH =
        Inr (example_model, [(0, PStr ''Apple_Healthy''), (1, PStr ''Apple_Rotten'')], True)
   \<and> scan_image id nearest (example_files example_labels) example_image =
        (case preprocess_image id nearest example_image IMG_SIZE
                (\<not> has_rescaling example_model) of
           Inl e \<Rightarrow> Inl e
         | Inr x \<Rightarrow> infer example_model
                      [(0, PStr ''Apple_Healthy''), (1, PStr ''Apple_Rotten'')] x)"
proof (intro conjI)
  show w: "(0::nat) < 3" by simp
  show h: "(0::nat) < 2" by simp
  show l: "load_model_and_labels (example_files example_labels) DEFAULT_MODEL_PATH LABELS_PATH =
        Inr (example_model, [(0, PStr ''Apple_Healthy''), (1, PStr ''Apple_Rotten'')], True)"
    by (rule load_example_labels)
  note th = preprocess_image_shape [OF w h, where resample = nearest and to_rgb = id
      and img = example_image and do_rescale = True
      and fs = "example_files example_labels" and model = example_model
      and inv_map = "[(0, PStr ''Apple_Healthy''), (1, PStr ''Apple_Rotten'')]" and r = True]
  show "scan_image id nearest (example_files example_labels) example_image =
        (case preprocess_image id nearest example_image IMG_SIZE
                (\<not> has_rescaling example_model) of
           Inl e \<Rightarrow> Inl e
         | Inr x \<Rightarrow> infer example_model
                      [(0, PStr ''Apple_Healthy''), (1, PStr ''Apple_Rotten'')] x)"
    using th l by blast
  obtain im t where r: "resize nearest (convert_RGB id example_image) (3, 2) = Inr im"
    and p: "preprocess_image id nearest example_image (3, 2) True = Inr t"
    and s: "has_shape t (1, 2, 3, 3)"
    and e: "\<forall>y<2. \<forall>x<3. t ! 0 ! y ! x =
                 map (\<lambda>b. if True then real (unat b) / 255 else real (unat b))
                   (channels (getpixel im x y))"
    using th by blast
  have im: "getpixel im 2 1 = (0, 102, 255)"
    using r by (auto simp: resize_def convert_RGB_def example_image_def nearest_def)
  have "t ! 0 ! 1 ! 2 = [0, 2 / 5, 1]"
    using e [rule_format, of 1 2] im by (simp add: channels_def)
  then show "\<exists>t. preprocess_image id nearest example_image (3, 2) True = Inr t
        \<and> has_shape t (1, 2, 3, 3)
        \<and> t ! 0 ! 1 ! 2 = [0, 2 / 5, 1]"
    using p s by blast
qed

section \<open>Properties of the inference step\<close>

text \<open>
  The loop of \<open>argmax_from\<close> keeps, for the part of the vector read so far, the first
  index that holds its maximum.
\<close>

lemma argmax_from_spec:
  assumes "length pre = i" and "bi < i" and "pre ! bi = bv"
    and "\<forall>j<i. pre ! j \<le> bv" and "\<forall>j<bi. pre ! j < bv"
  shows "argmax_from bi bv i vs < length (pre @ vs)
       \<and> (\<forall>j<length (pre @ vs). (pre @ vs) ! j \<le> (pre @ vs) ! argmax_from bi bv i vs)
       \<and> (\<forall>j<argmax_from bi bv i vs. (pre @ vs) ! j < (pre @ vs) ! argmax_from bi bv i vs)"
  using assms
proof (induction vs arbitrary: pre i bi bv)
  case Nil
  then show ?case by simp
next
  case (Cons v vs)
  let ?pre = "pre @ [v]"
  have len: "length ?pre = Suc i" using Cons.prems by simp
  show ?case
  proof (cases "bv < v")
    case True
    have "argmax_from i v (Suc i) vs < length (?pre @ vs)
       \<and> (\<forall>j<length (?pre @ vs). (?pre @ vs) ! j \<le> (?pre @ vs) ! argmax_from i v (Suc i) vs)
       \<and> (\<forall>j<argmax_from i v (Suc i) vs. (?pre @ vs) ! j < (?pre @ vs) ! argmax_from i v (Suc i) vs)"
    proof (rule Cons.IH [OF len])
      show "i < Suc i" by simp
      show "?pre ! i = v" using Cons.prems(1) by (simp add: nth_append)
      show "\<forall>j<Suc i. ?pre ! j \<le> v"
        using Cons.prems True by (auto simp: nth_append less_Suc_eq intro: order_trans less_imp_le)
      show "\<forall>j<i. ?pre ! j < v"
        using Cons.prems True by (auto simp: nth_append intro: le_less_trans)
    qed
    with True show ?thesis by simp
  next
    case False
    have "argmax_from bi bv (Suc i) vs < length (?pre @ vs)
       \<and> (\<forall>j<length (?pre @ vs). (?pre @ vs) ! j \<le> (?pre @ vs) ! argmax_from bi bv (Suc i) vs)
       \<and> (\<forall>j<argmax_from bi bv (Suc i) vs. (?pre @ vs) ! j < (?pre @ vs) ! argmax_from bi bv (Suc i) vs)"
    proof (rule Cons.IH [OF len])
      show "bi < Suc i" using Cons.prems by simp
      show "?pre ! bi = bv" using Cons.prems by (simp add: nth_append)
      show "\<forall>j<Suc i. ?pre ! j \<le> bv"
        using Cons.prems False by (auto simp: nth_append less_Suc_eq)
      show "\<forall>j<bi. ?pre ! j < bv"
        using Cons.prems by (auto simp: nth_append)
    qed
    with False show ?thesis by simp
  qed
qed

lemma np_argmax_spec:
  assumes "probs \<noteq> []"
  shows "\<exists>i. np_argmax probs = Inr i \<and> i < length probs
           \<and> (\<forall>j<length probs. probs ! j \<le> probs ! i)
           \<and> (\<forall>j<i. probs ! j < probs ! i)"
proof -
  obtain v vs where p: "probs = v # vs" using assms by (cases probs) auto
  have "argmax_from 0 v 1 vs < length ([v] @ vs)
       \<and> (\<forall>j<length ([v] @ vs). ([v] @ vs) ! j \<le> ([v] @ vs) ! argmax_from 0 v 1 vs)
       \<and> (\<forall>j<argmax_from 0 v 1 vs. ([v] @ vs) ! j < ([v] @ vs) ! argmax_from 0 v 1 vs)"
    by (rule argmax_from_spec) simp_all
  then show ?thesis using p by (simp add: np_argmax_def)
qed

lemma infer_spec:
  assumes "predict model x = probs # rest" and "probs \<noteq> []"
  shows "\<exists>i. i < length probs
           \<and> (\<forall>j<length probs. probs ! j \<le> probs ! i)
           \<and> (\<forall>j<i. probs ! j < probs ! i)
           \<and> infer model inv_map x =
               Inr (case dict_get inv_map (int i) of Some l \<Rightarrow> l | None \<Rightarrow> PStr (py_str i),
                    probs ! i)"
proof -
  obtain i where "np_argmax probs = Inr i" "i < length probs"
    "\<forall>j<length probs. probs ! j \<le> probs ! i" "\<forall>j<i. probs ! j < probs ! i"
    using np_argmax_spec [OF assms(2)] by blast
  then show ?thesis using assms(1) by (auto simp: infer_def)
qed

lemma example_model_emits:
  "\<forall>x. \<exists>probs rest. predict example_model x = probs # rest \<and> probs \<noteq> []
        \<and> (\<forall>p\<in>set probs. 0 \<le> p \<and> p \<le> 1)"
  by (simp add: example_model_def constant_model_def)

text \<open>
  C4: when the forward pass returns a non-empty first row, the inference step returns,
  whatever the values are, the label and the value of the first index that holds the
  maximum of the row: the label is the entry of the label mapping for that index, and
  the decimal string of the index when the mapping has no entry for it.
\<close>

theorem infer_top1:
  assumes "predict model x = probs # rest" and "probs \<noteq> []"
  shows "\<exists>i. i < length probs
           \<and> (\<forall>j<length probs. probs ! j \<le> probs ! i)
           \<and> (\<forall>j<i. probs ! j < probs ! i)
           \<and> infer model inv_map x =
               Inr (case dict_get inv_map (int i) of Some l \<Rightarrow> l | None \<Rightarrow> PStr (py_str i),
                    probs ! i)"
  using assms by (rule infer_spec)

theorem infer_top1_witness:
  "predict (constant_model [1 / 5, 3 / 10, 1 / 10]) [] = [1 / 5, 3 / 10, 1 / 10] # []
   \<and> [1 / 5, 3 / 10, 1 / 10] \<noteq> ([] :: real list)
   \<and> infer (constant_model [1 / 5, 3 / 10, 1 / 10])
        [(0, PStr ''Apple_Healthy''), (1, PStr ''Apple_Rotten'')] []
       = Inr (PStr ''Apple_Rotten'', 3 / 10)"
proof (intro conjI)
  let ?ps = "[1 / 5, 3 / 10, 1 / 10] :: real list"
  let ?inv = "[(0, PStr ''Apple_Healthy''), (1, PStr ''Apple_Rotten'')] :: (int, pyval) dict"
  show h1: "predict (constant_model ?ps) [] = ?ps # []"
    by (simp add: constant_model_def)
  show h2: "?ps \<noteq> []" by simp
  obtain i where i: "i < length ?ps" and mx: "\<forall>j<length ?ps. ?ps ! j \<le> ?ps ! i"
    and r: "infer (constant_model ?ps) ?inv [] =
              Inr (case dict_get ?inv (int i) of Some l \<Rightarrow> l | None \<Rightarrow> PStr (py_str i),
                   ?ps ! i)"
    using infer_top1 [OF h1 h2, of ?inv] by blast
  have le: "?ps ! 1 \<le> ?ps ! i" using mx [rule_format, of 1] by simp
  have "i = 0 \<or> i = 1 \<or> i = 2" using i by auto
  then have "i = 1" using le by auto
  then show "infer (constant_model ?ps) ?inv [] = Inr (PStr ''Apple_Rotten'', 3 / 10)"
    using r by (simp add: dict_get_def)
qed

text \<open>
  C3, as stated, fails: with the label file that has no entry for index 0 and the model
  of the example, scanning returns the label \<^verbatim>\<open>0\<close>, which is not a value of the loaded
  label mapping.
\<close>

theorem scan_label_outside_mapping:
  "load_model_and_labels (example_files short_labels) DEFAULT_MODEL_PATH LABELS_PATH =
     Inr (example_model, [(1, PStr ''Apple_Rotten'')], True)
   \<and> scan_image id nearest (example_files short_labels) example_image
       = Inr (PStr ''0'', 9 / 10)
   \<and> PStr ''0'' \<notin> snd ` set [(1 :: int, PStr ''Apple_Rotten'')]"
proof (intro conjI)
  show l: "load_model_and_labels (example_files short_labels) DEFAULT_MODEL_PATH LABELS_PATH =
     Inr (example_model, [(1, PStr ''Apple_Rotten'')], True)"
    by (rule load_short_labels)
  obtain x where x: "preprocess_image id nearest example_image IMG_SIZE
                       (\<not> has_rescaling example_model) = Inr x"
    using preprocess_image_total by blast
  have "infer example_model [(1, PStr ''Apple_Rotten'')] x = Inr (PStr ''0'', 9 / 10)"
    by (simp add: infer_def example_model_def constant_model_def np_argmax_def dict_get_def
        py_str_0)
  then show "scan_image id nearest (example_files short_labels) example_image
       = Inr (PStr ''0'', 9 / 10)"
    using scan_image_eq [OF l, of id nearest example_image] x by simp
  show "PStr ''0'' \<notin> snd ` set [(1 :: int, PStr ''Apple_Rotten'')]"
    by simp
qed

text \<open>
  C3, amended: for a loaded model that answers every input with a non-empty vector of
  values between 0 and 1, scanning any image preprocesses it to a tensor and returns,
  for the first row of the model's answer to that tensor and its top index (the first
  index that holds the maximum): as probability the value at the top index, which lies
  between 0 and 1; and as label the entry of the label mapping for the top index, which
  is one of the mapping's values, or the decimal string of the top index when the
  mapping has no entry for it.
\<close>

theorem scan_image_label_and_probability:
  assumes "load_model_and_labels fs DEFAULT_MODEL_PATH LABELS_PATH = Inr (model, inv_map, r)"
    and "\<forall>x. \<exists>probs rest. predict model x = probs # rest \<and> probs \<noteq> []
                \<and> (\<forall>p\<in>set probs. 0 \<le> p \<and> p \<le> 1)"
  shows "\<exists>label prob x probs rest i.
           scan_image cv rs fs img = Inr (label, prob)
           \<and> preprocess_image cv rs img IMG_SIZE (\<not> has_rescaling model) = Inr x
           \<and> predict model x = probs # rest
           \<and> i < length probs
           \<and> (\<forall>j<length probs. probs ! j \<le> probs ! i)
           \<and> (\<forall>j<i. probs ! j < probs ! i)
           \<and> prob = probs ! i \<and> 0 \<le> prob \<and> prob \<le> 1
           \<and> (case dict_get inv_map (int i) of
                 Some l \<Rightarrow> label = l \<and> label \<in> snd ` set inv_map
               | None \<Rightarrow> label = PStr (py_str i))"
proof -
  obtain x where x: "preprocess_image cv rs img IMG_SIZE (\<not> has_rescaling model) = Inr x"
    using preprocess_image_total by blast
  obtain probs rest where p: "predict model x = probs # rest" and ne: "probs \<noteq> []"
    and rg: "\<forall>p\<in>set probs. 0 \<le> p \<and> p \<le> 1"
    using assms(2) by blast
  obtain i where i: "i < length probs"
    and mx: "\<forall>j<length probs. probs ! j \<le> probs ! i"
    and fst: "\<forall>j<i. probs ! j < probs ! i"
    and inf: "infer model inv_map x =
               Inr (case dict_get inv_map (int i) of Some l \<Rightarrow> l | None \<Rightarrow> PStr (py_str i),
                    probs ! i)"
    using infer_spec [OF p ne, of inv_map] by blast
  have sc: "scan_image cv rs fs img = infer model inv_map x"
    using scan_image_eq [OF assms(1), of cv rs img] x by simp
  have pr: "0 \<le> probs ! i \<and> probs ! i \<le> 1" using rg i by simp
  let ?label = "case dict_get inv_map (int i) of Some l \<Rightarrow> l | None \<Rightarrow> PStr (py_str i)"
  have lb: "case dict_get inv_map (int i) of
              Some l \<Rightarrow> ?label = l \<and> ?label \<in> snd ` set inv_map
            | None \<Rightarrow> ?label = PStr (py_str i)"
  proof (cases "dict_get inv_map (int i)")
    case None
    then show ?thesis by simp
  next
    case (Some l)
    then have "(int i, l) \<in> set inv_map" by (simp add: dict_get_def map_of_SomeD)
    then have "l \<in> snd ` set inv_map" by force
    then show ?thesis using Some by simp
  qed
  have "scan_image cv rs fs img = Inr (?label, probs ! i)" using sc inf by simp
  then show ?thesis using x p i mx fst pr lb by blast
qed

theorem scan_image_label_and_probability_witness:
  "load_model_and_labels (example_files example_labels) DEFAULT_MODEL_PATH LABELS_PATH =
     Inr (example_model, [(0, PStr ''Apple_Healthy''), (1, PStr ''Apple_Rotten'')], True)
   \<and> (\<forall>x. \<exists>probs rest. predict example_model x = probs # rest \<and> probs \<noteq> []
        \<and> (\<forall>p\<in>set probs. 0 \<le> p \<and> p \<le> 1))
   \<and> scan_image id nearest (example_files example_labels) example_image
       = Inr (PStr ''Apple_Healthy'', 9 / 10)
   \<and> PStr ''Apple_Healthy''
       \<in> snd ` set [(0 :: int, PStr ''Apple_Healthy''), (1, PStr ''Apple_Rotten'')]"
proof (intro conjI)
  let ?inv = "[(0, PStr ''Apple_Healthy''), (1, PStr ''Apple_Rotten'')] :: (int, pyval) dict"
  show l: "load_model_and_labels (example_files example_labels) DEFAULT_MODEL_PATH LABELS_PATH =
     Inr (example_model, ?inv, True)"
    by (rule load_example_labels)
  show e: "\<forall>x. \<exists>probs rest. predict example_model x = probs # rest \<and> probs \<noteq> []
        \<and> (\<forall>p\<in>set probs. 0 \<le> p \<and> p \<le> 1)"
    by (rule example_model_emits)
  obtain label prob x probs rest i where
    sc: "scan_image id nearest (example_files example_labels) example_image = Inr (label, prob)"
    and p: "predict example_model x = probs # rest"
    and i: "i < length probs"
    and mx: "\<forall>j<length probs. probs ! j \<le> probs ! i"
    and pr: "prob = probs ! i"
    and lb: "case dict_get ?inv (int i) of
               Some l \<Rightarrow> label = l \<and> label \<in> snd ` set ?inv
             | None \<Rightarrow> label = PStr (py_str i)"
    using scan_image_label_and_probability [OF l e, of id nearest example_image] by blast
  have ps: "probs = [9 / 10, 1 / 10]"
    using p by (simp add: example_model_def constant_model_def)
  have "i = 0 \<or> i = 1" using i ps by auto
  moreover have "probs ! 0 \<le> probs ! i" using mx [rule_format, of 0] ps by simp
  ultimately have i0: "i = 0" using ps by auto
  have "label = PStr ''Apple_Healthy''" using lb i0 by (simp add: dict_get_def)
  moreover have "prob = 9 / 10" using pr ps i0 by simp
  ultimately show "scan_image id nearest (example_files example_labels) example_image
       = Inr (PStr ''Apple_Healthy'', 9 / 10)"
    using sc by simp
  show "PStr ''Apple_Healthy''
       \<in> snd ` set [(0 :: int, PStr ''Apple_Healthy''), (1, PStr ''Apple_Rotten'')]"
    by simp
qed

end
